theory Spec2Isabelle
  imports Main "HOL-Library.Word"
begin

unbundle bit_operations_syntax

section \<open>Data model of flac.go\<close>

text \<open>
  Go's fixed-width integers are words. \<open>int64\<close> and \<open>uint64\<close> share the type
  \<open>64 word\<close>: a conversion \<open>int64(x)\<close> or \<open>uint64(x)\<close> keeps the bits, \<open>+\<close> and
  \<open>-\<close> wrap around, and a signed comparison reads both sides with \<open>sint\<close>.
\<close>

type_synonym int64 = "64 word"
type_synonym uint64 = "64 word"
type_synonym uint16 = "16 word"
type_synonym byte = "8 word"

text \<open>\<open>meta.SeekPoint\<close>, as flac.go builds and reads it.\<close>

record SeekPoint =
  SampleNum :: uint64
  Offset :: uint64
  NSamples :: uint16

text \<open>The zero value of \<open>var p meta.SeekPoint\<close>.\<close>

definition zeroSeekPoint :: SeekPoint where
  "zeroSeekPoint = \<lparr>SampleNum = 0, Offset = 0, NSamples = 0\<rparr>"

text \<open>
  Errors are values. \<open>ErrOther n\<close> stands for any error handed through from the byte
  source or from the frame and metadata packages.
\<close>

datatype error =
    EOF
  | ErrUnexpectedEOF
  | ErrInvalidSeek
  | ErrNoSeeker
  | ErrNegativePosition
  | ErrNoProgress
  | ErrInvalidSignature "byte list"
  | ErrOther nat

text \<open>A run-time panic of Go unwinds the call: it is not an error value.\<close>

datatype panic =
    PanicTypeAssertion
  | PanicNilPointer
  | PanicDivideByZero
  | PanicMakeSlice

datatype 'a outcome = Panics panic | Returns 'a

text \<open>
  What \<open>frame.Parse\<close> does on one call: it decodes a frame with the given block size
  from the given number of bytes, or it fails after reading some bytes. The frame
  package is not part of this file; the source below carries the sequence of these
  results that the codec gives from \<open>dataStart\<close> on. The end of the sequence is the
  graceful \<open>io.EOF\<close>.
\<close>

datatype parse_ev = Frame uint16 int64 | Fail error int64

text \<open>
  The byte source \<open>stream.r\<close> as the seeking code sees it. \<open>seekable\<close> says whether
  its dynamic type implements \<open>io.ReadSeeker\<close>; \<open>pos\<close> is the read position;
  \<open>seekErr k\<close> is the error, if any, of the \<open>k\<close>-th call of its \<open>Seek\<close> method,
  counted by \<open>seekCalls\<close>; \<open>frames\<close> is what the frame codec decodes from
  \<open>dataStart\<close> on.
\<close>

record source =
  seekable :: bool
  pos :: int64
  seekCalls :: nat
  seekErr :: "nat \<Rightarrow> error option"
  frames :: "parse_ev list"

text \<open>
  \<open>Stream\<close>, without the fields \<open>Blocks\<close> and \<open>c\<close> that seeking never reads.
  \<open>Info\<close> is the pointer to the StreamInfo block, of which only \<open>NSamples\<close> is read
  here; \<open>seekTable\<close> is the pointer to the table, holding its \<open>Points\<close>. \<open>None\<close> is
  \<open>nil\<close>. \<open>seekTableSize\<close> is a Go \<open>int\<close>.
\<close>

record Stream =
  Info :: "uint64 option"
  seekTable :: "SeekPoint list option"
  seekTableSize :: int
  dataStart :: int64
  r :: source

section \<open>Table lookup\<close>

text \<open>
  The loop of \<open>searchFromStart\<close>, with its variables \<open>i\<close>, \<open>last\<close> and \<open>p\<close>.
  \<open>range\<close> assigns the point to \<open>p\<close> before the body runs, so \<open>p\<close> is the point
  of the last iteration when the loop runs out.
\<close>

fun searchLoop :: "int64 \<Rightarrow> nat \<Rightarrow> SeekPoint \<Rightarrow> SeekPoint \<Rightarrow> SeekPoint list \<Rightarrow> SeekPoint" where
  "searchLoop sample i lastp p [] = p"
| "searchLoop sample i lastp p (q # qs) =
     (if sint sample \<le> sint (SampleNum q)
      then (if i = 0 then q else lastp)
      else searchLoop sample (Suc i) q q qs)"

definition searchPoints :: "SeekPoint list \<Rightarrow> int64 \<Rightarrow> SeekPoint" where
  "searchPoints points sample = searchLoop sample 0 zeroSeekPoint zeroSeekPoint points"

text \<open>\<open>stream.seekTable.Points\<close> panics when \<open>seekTable\<close> is \<open>nil\<close>.\<close>

definition searchFromStart :: "Stream \<Rightarrow> int64 \<Rightarrow> SeekPoint outcome" where
  "searchFromStart stream sample =
     (case seekTable stream of
        None \<Rightarrow> Panics PanicNilPointer
      | Some points \<Rightarrow> Returns (searchPoints points sample))"

text \<open>
  \<open>searchFromEnd\<close>: \<open>stream.Info.NSamples\<close> is read first and panics when \<open>Info\<close>
  is \<open>nil\<close>.
\<close>

definition searchFromEnd :: "Stream \<Rightarrow> int64 \<Rightarrow> SeekPoint outcome" where
  "searchFromEnd stream sample =
     (case Info stream of
        None \<Rightarrow> Panics PanicNilPointer
      | Some n \<Rightarrow> searchFromStart stream (n + sample))"

section \<open>The byte source's Seek method\<close>

text \<open>
  \<open>rs.Seek(0, io.SeekCurrent)\<close> reports the position. A call that fails leaves the
  position where it was.
\<close>

definition seekCurrent :: "source \<Rightarrow> (error + int64) \<times> source" where
  "seekCurrent s =
     (case seekErr s (seekCalls s) of
        Some e \<Rightarrow> (Inl e, s\<lparr>seekCalls := Suc (seekCalls s)\<rparr>)
      | None \<Rightarrow> (Inr (pos s), s\<lparr>seekCalls := Suc (seekCalls s)\<rparr>))"

text \<open>
  \<open>rs.Seek(off, io.SeekStart)\<close>. By the contract of \<open>io.Seeker\<close>, seeking to a
  position before the start is an error.
\<close>

definition seekStart :: "source \<Rightarrow> int64 \<Rightarrow> (error + int64) \<times> source" where
  "seekStart s off =
     (case seekErr s (seekCalls s) of
        Some e \<Rightarrow> (Inl e, s\<lparr>seekCalls := Suc (seekCalls s)\<rparr>)
      | None \<Rightarrow>
          if sint off < 0 then (Inl ErrNegativePosition, s\<lparr>seekCalls := Suc (seekCalls s)\<rparr>)
          else (Inr off, s\<lparr>pos := off, seekCalls := Suc (seekCalls s)\<rparr>))"

definition errOf :: "error + 'a \<Rightarrow> error option" where
  "errOf res = (case res of Inl e \<Rightarrow> Some e | Inr v \<Rightarrow> None)"

section \<open>Lookup from the current position\<close>

fun currentLoop :: "SeekPoint list \<Rightarrow> int64 \<Rightarrow> int64 \<Rightarrow> SeekPoint \<Rightarrow> SeekPoint list \<Rightarrow> SeekPoint" where
  "currentLoop points offset sample p [] = p"
| "currentLoop points offset sample p (q # qs) =
     (if sint offset \<le> sint (Offset q)
      then searchPoints points (SampleNum q + sample)
      else currentLoop points offset sample q qs)"

definition searchFromCurrent :: "Stream \<Rightarrow> int64 \<Rightarrow> ((SeekPoint \<times> error option) \<times> Stream) outcome" where
  "searchFromCurrent stream sample =
     (case seekCurrent (r stream) of
        (Inl e, s1) \<Rightarrow> Returns ((zeroSeekPoint, Some e), stream\<lparr>r := s1\<rparr>)
      | (Inr ofs, s1) \<Rightarrow>
          (case seekTable stream of
             None \<Rightarrow> Panics PanicNilPointer
           | Some points \<Rightarrow>
               Returns ((currentLoop points (ofs - dataStart stream) sample zeroSeekPoint points, None),
                        stream\<lparr>r := s1\<rparr>)))"

section \<open>Building the seek table\<close>

text \<open>
  The scanning loop of \<open>makeSeekTable\<close>. Its arguments are \<open>dataStart\<close>, the results
  that \<open>ParseNext\<close> still has to give, the source, \<open>sampleNum\<close> and \<open>tmp\<close>.
  \<open>ParseNext\<close> moves the position by the bytes it read. The position is queried
  after the frame has been parsed.
\<close>

fun scanFrames :: "int64 \<Rightarrow> parse_ev list \<Rightarrow> source \<Rightarrow> uint64 \<Rightarrow> SeekPoint list
    \<Rightarrow> (error + SeekPoint list) \<times> source" where
  "scanFrames ds [] s n tmp = (Inr tmp, s)"
| "scanFrames ds (Fail e k # evs) s n tmp =
     (if e = EOF then (Inr tmp, s\<lparr>pos := pos s + k\<rparr>) else (Inl e, s\<lparr>pos := pos s + k\<rparr>))"
| "scanFrames ds (Frame bs k # evs) s n tmp =
     (case seekCurrent (s\<lparr>pos := pos s + k\<rparr>) of
        (Inl e, s2) \<Rightarrow> (Inl e, s2)
      | (Inr ofs, s2) \<Rightarrow>
          scanFrames ds evs s2 (n + ucast bs)
            (tmp @ [\<lparr>SampleNum = n, Offset = ofs - ds, NSamples = bs\<rparr>]))"

text \<open>Go's \<open>/\<close> and \<open>%\<close> on \<open>int\<close> truncate towards zero.\<close>

definition goDiv :: "int \<Rightarrow> int \<Rightarrow> int" where
  "goDiv a b = sgn a * sgn b * (\<bar>a\<bar> div \<bar>b\<bar>)"

definition goRem :: "int \<Rightarrow> int \<Rightarrow> int" where
  "goRem a b = a - b * goDiv a b"

text \<open>The second loop of \<open>makeSeekTable\<close>: keep the points whose index is a multiple of \<open>m\<close>.\<close>

fun keepMultiples :: "int \<Rightarrow> nat \<Rightarrow> SeekPoint list \<Rightarrow> SeekPoint list" where
  "keepMultiples m i [] = []"
| "keepMultiples m i (p # ps) =
     (if goRem (int i) m = 0 then p # keepMultiples m (Suc i) ps
      else keepMultiples m (Suc i) ps)"

text \<open>
  The reduction of the raw points \<open>tmp\<close> to the resolution \<open>seekTableSize\<close>. Division
  by zero panics; so does \<open>make\<close> with a negative capacity, which
  \<open>seekTableSize + 1\<close> is also when the 64-bit addition wraps. The memory that
  \<open>make\<close> may fail to allocate is not modelled.
\<close>

definition reducePoints :: "SeekPoint list \<Rightarrow> int \<Rightarrow> SeekPoint list outcome" where
  "reducePoints tmp tsize =
     (if tsize < int (length tmp) \<and> tsize = 0 then Panics PanicDivideByZero
      else if sint (word_of_int (tsize + 1) :: int64) < 0 then Panics PanicMakeSlice
      else if tsize < int (length tmp) \<and> goDiv (int (length tmp)) tsize = 0 \<and> tmp \<noteq> []
        then Panics PanicDivideByZero
      else Returns (keepMultiples
             (if tsize < int (length tmp) then goDiv (int (length tmp)) tsize else 1) 0 tmp))"

definition makeSeekTable :: "Stream \<Rightarrow> (error option \<times> Stream) outcome" where
  "makeSeekTable stream =
     (if \<not> seekable (r stream) then Returns (Some ErrNoSeeker, stream)
      else case seekCurrent (r stream) of
        (Inl e, s1) \<Rightarrow> Returns (Some e, stream\<lparr>r := s1\<rparr>)
      | (Inr pos0, s1) \<Rightarrow>
          (case seekStart s1 (dataStart stream) of
             (Inl e, s2) \<Rightarrow> Returns (Some e, stream\<lparr>r := s2\<rparr>)
           | (Inr ofs, s2) \<Rightarrow>
               (case scanFrames (dataStart stream) (frames s2) s2 0 [] of
                  (Inl e, s3) \<Rightarrow> Returns (Some e, stream\<lparr>r := s3\<rparr>)
                | (Inr tmp, s3) \<Rightarrow>
                    (case reducePoints tmp (seekTableSize stream) of
                       Panics x \<Rightarrow> Panics x
                     | Returns points \<Rightarrow>
                         (case seekStart s3 pos0 of
                            (res, s4) \<Rightarrow>
                              Returns (errOf res,
                                       stream\<lparr>seekTable := Some points, r := s4\<rparr>))))))"

section \<open>Seek\<close>

abbreviation (input) SeekStart :: int where "SeekStart \<equiv> 0"
abbreviation (input) SeekCurrent :: int where "SeekCurrent \<equiv> 1"
abbreviation (input) SeekEnd :: int where "SeekEnd \<equiv> 2"

text \<open>
  The \<open>switch whence\<close> of \<open>Seek\<close>. Its \<open>default\<close> branch returns
  \<open>(0, ErrInvalidSeek)\<close> at once; here it hands the error to the test \<open>err != nil\<close>
  that follows the switch, which returns the same pair.
\<close>

definition locate :: "Stream \<Rightarrow> int64 \<Rightarrow> int \<Rightarrow> ((SeekPoint \<times> error option) \<times> Stream) outcome" where
  "locate stream sampleNum whence =
     (if whence = SeekStart then
        (case searchFromStart stream sampleNum of
           Panics x \<Rightarrow> Panics x
         | Returns p \<Rightarrow> Returns ((p, None), stream))
      else if whence = SeekCurrent then searchFromCurrent stream sampleNum
      else if whence = SeekEnd then
        (case searchFromEnd stream sampleNum of
           Panics x \<Rightarrow> Panics x
         | Returns p \<Rightarrow> Returns ((p, None), stream))
      else Returns ((zeroSeekPoint, Some ErrInvalidSeek), stream))"

text \<open>
  \<open>Seek\<close> returns the pair \<open>(result, err)\<close> and leaves the stream changed. The type
  assertion \<open>stream.r.(io.ReadSeeker)\<close> has no \<open>ok\<close> result: it panics on a source
  that cannot seek.
\<close>

definition Seek :: "Stream \<Rightarrow> int64 \<Rightarrow> int \<Rightarrow> ((int64 \<times> error option) \<times> Stream) outcome" where
  "Seek stream sampleNum whence =
     (case (if seekTable stream = None \<and> 0 < seekTableSize stream
            then makeSeekTable stream else Returns (None, stream)) of
        Panics x \<Rightarrow> Panics x
      | Returns (Some e, st1) \<Rightarrow> Returns ((0, Some e), st1)
      | Returns (None, st1) \<Rightarrow>
          if \<not> seekable (r st1) then Panics PanicTypeAssertion
          else (case locate st1 sampleNum whence of
                  Panics x \<Rightarrow> Panics x
                | Returns ((point, Some e), st2) \<Rightarrow> Returns ((0, Some e), st2)
                | Returns ((point, None), st2) \<Rightarrow>
                    (case seekStart (r st2) (dataStart st2 + Offset point) of
                       (res, s3) \<Rightarrow>
                         Returns ((SampleNum point, errOf res), st2\<lparr>r := s3\<rparr>))))"

section \<open>Byte readers\<close>

text \<open>
  The \<open>Read\<close> method of a source whose unread bytes are \<open>bs\<close>, asked for \<open>n\<close>
  bytes: it gives as many bytes as are asked for and left, and \<open>io.EOF\<close> when none
  is left. So do \<open>*bytes.Reader\<close> and \<open>*os.File\<close> on a regular file.
\<close>

definition rawRead :: "nat \<Rightarrow> byte list \<Rightarrow> (byte list \<times> error option) \<times> byte list" where
  "rawRead n bs = (if bs = [] then (([], Some EOF), bs) else ((take n bs, None), drop n bs))"

text \<open>
  A \<open>*bufio.Reader\<close> of the default size: \<open>buffered\<close> is \<open>b.buf[b.r:b.w]\<close>,
  \<open>under\<close> the unread bytes of the source \<open>b.rd\<close>, \<open>pending\<close> the error \<open>b.err\<close>.
\<close>

record bufio =
  buffered :: "byte list"
  under :: "byte list"
  pending :: "error option"

definition defaultBufSize :: nat where
  "defaultBufSize = 4096"

text \<open>\<open>b.fill()\<close>: one \<open>Read\<close> of the source into the free part of the buffer.\<close>

definition fill :: "bufio \<Rightarrow> bufio" where
  "fill b =
     (case rawRead (defaultBufSize - length (buffered b)) (under b) of
        ((bs, e), u) \<Rightarrow>
          b\<lparr>buffered := buffered b @ bs, under := u,
            pending := (case e of Some x \<Rightarrow> Some x | None \<Rightarrow> pending b)\<rparr>)"

text \<open>What \<open>Discard\<close> and \<open>Read\<close> do first when nothing is buffered.\<close>

definition refill :: "bufio \<Rightarrow> bufio" where
  "refill b = (if buffered b = [] then fill b else b)"

text \<open>The loop of \<open>b.Discard(n)\<close> for \<open>n > 0\<close>, with its variable \<open>remain\<close>.\<close>

function discardLoop :: "nat \<Rightarrow> bufio \<Rightarrow> error option \<times> bufio" where
  "discardLoop remain b =
     (if remain \<le> length (buffered (refill b))
      then (None, (refill b)\<lparr>buffered := drop remain (buffered (refill b))\<rparr>)
      else if pending (refill b) \<noteq> None
      then (pending (refill b), (refill b)\<lparr>buffered := [], pending := None\<rparr>)
      else discardLoop (remain - length (buffered (refill b))) ((refill b)\<lparr>buffered := []\<rparr>))"
  by pat_completeness auto
termination
proof (relation "measure (\<lambda>(remain, b). remain)")
  show "wf (measure (\<lambda>(remain, b). remain))" by simp
next
  fix remain :: nat and b :: bufio
  assume a: "\<not> remain \<le> length (buffered (refill b))"
    and p: "\<not> pending (refill b) \<noteq> None"
  have "buffered (refill b) \<noteq> []"
    using p by (auto simp: refill_def fill_def rawRead_def defaultBufSize_def split: if_splits)
  with a show "((remain - length (buffered (refill b)), (refill b)\<lparr>buffered := []\<rparr>), remain, b)
               \<in> measure (\<lambda>(remain, b). remain)"
    by (cases "buffered (refill b)") auto
qed

declare discardLoop.simps [simp del]

definition Discard :: "nat \<Rightarrow> bufio \<Rightarrow> error option \<times> bufio" where
  "Discard n b = (if n = 0 then (None, b) else discardLoop n b)"

text \<open>
  \<open>b.Read(p)\<close> for a \<open>p\<close> of \<open>n\<close> bytes, \<open>n\<close> smaller than the buffer: when nothing
  is buffered it reads the source once, then it copies what is buffered, which may be
  fewer than \<open>n\<close> bytes.
\<close>

definition bufRead :: "nat \<Rightarrow> bufio \<Rightarrow> (byte list \<times> error option) \<times> bufio" where
  "bufRead n b =
     (if buffered b = [] then
        (if pending b \<noteq> None then (([], pending b), b\<lparr>pending := None\<rparr>)
         else case rawRead defaultBufSize (under b) of
           ((bs, e), u) \<Rightarrow>
             if bs = [] then (([], e), b\<lparr>under := u\<rparr>)
             else ((take n bs, None), b\<lparr>buffered := drop n bs, under := u, pending := e\<rparr>))
      else ((take n (buffered b), None), b\<lparr>buffered := drop n (buffered b)\<rparr>))"

text \<open>
  \<open>stream.r\<close> as the signature check sees it: a \<open>*bufio.Reader\<close> (\<open>New\<close> and
  \<open>Parse\<close> wrap the source in one) or the source itself (\<open>NewSeek\<close> does not).
\<close>

datatype reader = Raw "byte list" | Buf bufio

text \<open>The bytes that a reader has still to give.\<close>

fun unread :: "reader \<Rightarrow> byte list" where
  "unread (Raw bs) = bs"
| "unread (Buf b) = buffered b @ under b"

fun readerRead :: "nat \<Rightarrow> reader \<Rightarrow> (byte list \<times> error option) \<times> reader" where
  "readerRead n (Raw bs) = (case rawRead n bs of (res, bs') \<Rightarrow> (res, Raw bs'))"
| "readerRead n (Buf b) = (case bufRead n b of (res, b') \<Rightarrow> (res, Buf b'))"

text \<open>
  The loop of \<open>io.ReadAtLeast\<close>: read until \<open>want\<close> bytes are there or an error
  comes. A \<open>Read\<close> that gave neither a byte nor an error would make Go's loop spin;
  the readers above never do that, and the loop here stops with \<open>ErrNoProgress\<close>.
\<close>

function readLoop :: "nat \<Rightarrow> byte list \<Rightarrow> reader \<Rightarrow> (byte list \<times> error option) \<times> reader" where
  "readLoop want got rd =
     (if want \<le> length got then ((got, None), rd)
      else case readerRead (want - length got) rd of
        ((bs, Some e), rd') \<Rightarrow> ((got @ bs, Some e), rd')
      | ((bs, None), rd') \<Rightarrow>
          if bs = [] then ((got, Some ErrNoProgress), rd')
          else readLoop want (got @ bs) rd')"
  by pat_completeness auto
termination
  by (relation "measure (\<lambda>(want, got, rd). want - length got)") (auto simp: neq_Nil_conv)

declare readLoop.simps [simp del]

text \<open>\<open>io.ReadFull(r, buf)\<close> for a \<open>buf\<close> of \<open>n\<close> bytes.\<close>

definition ReadFull :: "nat \<Rightarrow> reader \<Rightarrow> (byte list \<times> error option) \<times> reader" where
  "ReadFull n rd =
     (case readLoop n [] rd of
        ((got, err), rd') \<Rightarrow>
          if n \<le> length got then ((got, None), rd')
          else if got \<noteq> [] \<and> err = Some EOF then ((got, Some ErrUnexpectedEOF), rd')
          else ((got, err), rd'))"

section \<open>The signature and the ID3v2 tag\<close>

definition flacSignature :: "byte list" where
  "flacSignature = [0x66, 0x4C, 0x61, 0x43]"

definition id3Signature :: "byte list" where
  "id3Signature = [0x49, 0x44, 0x33]"

text \<open>
  \<open>bufio.NewReader(stream.r)\<close>: a new reader with an empty buffer, or \<open>stream.r\<close>
  itself when that is a \<open>*bufio.Reader\<close> of the default size already.
\<close>

fun bufioNewReader :: "reader \<Rightarrow> bufio" where
  "bufioNewReader (Raw bs) = \<lparr>buffered = [], under = bs, pending = None\<rparr>"
| "bufioNewReader (Buf b) = b"

text \<open>
  \<open>stream.r\<close> when \<open>skipID3v2\<close> returns and its local reader is dropped: a source
  that was wrapped has given all that the local reader took from it.
\<close>

fun dropLocal :: "reader \<Rightarrow> bufio \<Rightarrow> reader" where
  "dropLocal (Raw bs) b = Raw (under b)"
| "dropLocal (Buf b0) b = Buf b"

text \<open>The size expression of \<open>skipID3v2\<close> on the four bytes of \<open>sizeBuf\<close>.\<close>

definition id3Size :: "byte \<Rightarrow> byte \<Rightarrow> byte \<Rightarrow> byte \<Rightarrow> int" where
  "id3Size b0 b1 b2 b3 =
     ((push_bit 21 (uint b0) OR push_bit 14 (uint b1)) OR push_bit 7 (uint b2)) OR uint b3"

text \<open>\<open>sizeBuf\<close> after \<open>r.Read(sizeBuf[:])\<close> gave the bytes \<open>bs\<close>: the rest stays zero.\<close>

definition sizeBuf :: "byte list \<Rightarrow> byte list" where
  "sizeBuf bs = take 4 (bs @ replicate 4 0)"

definition skipID3v2 :: "reader \<Rightarrow> error option \<times> reader" where
  "skipID3v2 rd =
     (case Discard 2 (bufioNewReader rd) of
        (Some e, b1) \<Rightarrow> (Some e, dropLocal rd b1)
      | (None, b1) \<Rightarrow>
          (case bufRead 4 b1 of
             ((bs, Some e), b2) \<Rightarrow> (Some e, dropLocal rd b2)
           | ((bs, None), b2) \<Rightarrow>
               (case Discard (nat (id3Size (sizeBuf bs ! 0) (sizeBuf bs ! 1)
                                           (sizeBuf bs ! 2) (sizeBuf bs ! 3))) b2 of
                  (err, b3) \<Rightarrow> (err, dropLocal rd b3))))"

text \<open>
  The signature check of \<open>parseStreamInfo\<close>, up to the call of \<open>meta.Parse\<close>, which
  reads on from the reader returned here.
\<close>

definition verifySignature :: "reader \<Rightarrow> error option \<times> reader" where
  "verifySignature rd =
     (case ReadFull 4 rd of
        ((buf, Some e), rd1) \<Rightarrow> (Some e, rd1)
      | ((buf, None), rd1) \<Rightarrow>
          if take 3 buf = id3Signature then
            (case skipID3v2 rd1 of
               (Some e, rd2) \<Rightarrow> (Some e, rd2)
             | (None, rd2) \<Rightarrow>
                 (case ReadFull 4 rd2 of
                    ((buf2, Some e), rd3) \<Rightarrow> (Some e, rd3)
                  | ((buf2, None), rd3) \<Rightarrow>
                      if buf2 \<noteq> flacSignature then (Some (ErrInvalidSignature buf2), rd3)
                      else (None, rd3)))
          else if buf \<noteq> flacSignature then (Some (ErrInvalidSignature buf), rd1)
          else (None, rd1))"

section \<open>Example sessions\<close>

text \<open>
  A seekable source at position \<open>p\<close> whose \<open>Seek\<close> never fails, such as a
  \<open>*bytes.Reader\<close> or a regular file.
\<close>

definition fileSource :: "int64 \<Rightarrow> parse_ev list \<Rightarrow> source" where
  "fileSource p evs =
     \<lparr>seekable = True, pos = p, seekCalls = 0, seekErr = (\<lambda>k. None), frames = evs\<rparr>"

text \<open>Three frames of 4096 samples and 1000 bytes each, with an embedded seek table.\<close>

definition table3 :: "SeekPoint list" where
  "table3 =
     [\<lparr>SampleNum = 0, Offset = 0, NSamples = 4096\<rparr>,
      \<lparr>SampleNum = 4096, Offset = 1000, NSamples = 4096\<rparr>,
      \<lparr>SampleNum = 8192, Offset = 2000, NSamples = 4096\<rparr>]"

definition stream3 :: Stream where
  "stream3 =
     \<lparr>Info = Some 12288, seekTable = Some table3, seekTableSize = 100, dataStart = 42,
      r = fileSource 42 [Frame 4096 1000, Frame 4096 1000, Frame 4096 1000]\<rparr>"

text \<open>The same stream, read up to the byte 5000, behind its last indexed frame.\<close>

definition stream3Ahead :: Stream where
  "stream3Ahead =
     stream3\<lparr>r := fileSource 5000 [Frame 4096 1000, Frame 4096 1000, Frame 4096 1000]\<rparr>"

text \<open>
  The session that \<open>New\<close> and \<open>Parse\<close> build: the source is wrapped in a
  \<open>*bufio.Reader\<close>, which has no \<open>Seek\<close> method, \<open>seekTableSize\<close> is 0 and
  \<open>seekTable\<close> is \<open>nil\<close>.
\<close>

definition sequentialStream :: Stream where
  "sequentialStream =
     \<lparr>Info = Some 12288, seekTable = None, seekTableSize = 0, dataStart = 0,
      r = \<lparr>seekable = False, pos = 42, seekCalls = 0, seekErr = (\<lambda>k. None),
           frames = [Frame 4096 1000, Frame 4096 1000, Frame 4096 1000]\<rparr>\<rparr>"

text \<open>
  Sessions that \<open>NewSeek\<close> builds on streams without a seek table block:
  \<open>seekTableSize\<close> is \<open>defaultSeekTableSize\<close>. The first stream has no frame.
\<close>

definition emptyStream :: Stream where
  "emptyStream =
     \<lparr>Info = Some 0, seekTable = None, seekTableSize = 100, dataStart = 42,
      r = fileSource 42 []\<rparr>"

definition unindexed3 :: Stream where
  "unindexed3 =
     \<lparr>Info = Some 12288, seekTable = None, seekTableSize = 100, dataStart = 42,
      r = fileSource 5000 [Frame 4096 1000, Frame 4096 1000, Frame 4096 1000]\<rparr>"

text \<open>The second frame of this stream does not decode.\<close>

definition corruptStream :: Stream where
  "corruptStream =
     \<lparr>Info = Some 12288, seekTable = None, seekTableSize = 100, dataStart = 42,
      r = fileSource 5000 [Frame 4096 1000, Fail (ErrOther 1) 17, Frame 4096 1000]\<rparr>"

text \<open>The fourth \<open>Seek\<close> call on this source fails: the one that restores the position.\<close>

definition restoreFails :: Stream where
  "restoreFails =
     \<lparr>Info = Some 4096, seekTable = None, seekTableSize = 100, dataStart = 42,
      r = \<lparr>seekable = True, pos = 5000, seekCalls = 0,
           seekErr = (\<lambda>k. if k = 3 then Some (ErrOther 9) else None),
           frames = [Frame 4096 1000]\<rparr>\<rparr>"

text \<open>A stream of 102 frames.\<close>

definition stream102 :: Stream where
  "stream102 =
     \<lparr>Info = Some 417792, seekTable = None, seekTableSize = 100, dataStart = 42,
      r = fileSource 42 (replicate 102 (Frame 4096 1000))\<rparr>"

text \<open>A session with an embedded seek table that has no point.\<close>

definition emptyTableStream :: Stream where
  "emptyTableStream =
     \<lparr>Info = Some 0, seekTable = Some [], seekTableSize = 100, dataStart = 42,
      r = fileSource 42 []\<rparr>"

text \<open>
  A FLAC file with an ID3v2 tag in front: the tag header with the size field
  \<open>0, 0, 0, 3\<close>, three bytes of tag body, the signature, and the first bytes of the
  StreamInfo block header.
\<close>

definition taggedFile :: "byte list" where
  "taggedFile =
     [0x49, 0x44, 0x33, 0x04, 0x00, 0x00, 0x00, 0x00, 0x00, 0x03, 0xAA, 0xBB, 0xCC,
      0x66, 0x4C, 0x61, 0x43, 0x80, 0x00, 0x00, 0x22]"

section \<open>Auxiliary notions for the statements\<close>

text \<open>A point lies below the target when the comparison of \<open>searchFromStart\<close> fails.\<close>

definition below :: "int64 \<Rightarrow> SeekPoint \<Rightarrow> bool" where
  "below sample q = (sint (SampleNum q) < sint sample)"

text \<open>
  The synchsafe value of four size bytes in the words of the specification: each
  byte gives its low seven bits.
\<close>

definition synchsafe :: "byte \<Rightarrow> byte \<Rightarrow> byte \<Rightarrow> byte \<Rightarrow> int" where
  "synchsafe b0 b1 b2 b3 =
     (uint b0 mod 128) * 2 ^ 21 + (uint b1 mod 128) * 2 ^ 14 + (uint b2 mod 128) * 2 ^ 7
       + uint b3 mod 128"

section \<open>Properties of the table lookup\<close>

lemma searchLoop_takeWhile:
  "searchLoop sample i lastp p qs =
     (if takeWhile (below sample) qs = qs then (if qs = [] then p else last qs)
      else if takeWhile (below sample) qs = [] then (if i = 0 then hd qs else lastp)
      else last (takeWhile (below sample) qs))"
proof (induction qs arbitrary: i lastp p)
  case Nil
  show ?case by simp
next
  case (Cons q qs)
  show ?case
  proof (cases "below sample q")
    case True
    then have step: "searchLoop sample i lastp p (q # qs) = searchLoop sample (Suc i) q q qs"
      by (simp add: below_def)
    show ?thesis
      unfolding step Cons.IH using True
      by (cases qs) (auto simp: below_def)
  next
    case False
    then show ?thesis by (simp add: below_def)
  qed
qed

lemma takeWhile_first_hit:
  assumes "i < length qs" "\<not> P (qs ! i)" "\<forall>j<i. P (qs ! j)"
  shows "takeWhile P qs = take i qs"
proof -
  have "length (takeWhile P qs) = i"
  proof (rule antisym)
    show "length (takeWhile P qs) \<le> i"
    proof (rule ccontr)
      assume "\<not> length (takeWhile P qs) \<le> i"
      then have "i < length (takeWhile P qs)" by simp
      then have "P (takeWhile P qs ! i)" by (meson nth_mem set_takeWhileD)
      moreover have "takeWhile P qs ! i = qs ! i"
        using \<open>i < length (takeWhile P qs)\<close> by (rule takeWhile_nth)
      ultimately show False using assms(2) by simp
    qed
    show "i \<le> length (takeWhile P qs)"
      using assms(1,3) by (intro length_takeWhile_less_P_nth) auto
  qed
  then show ?thesis by (metis takeWhile_eq_take)
qed

text \<open>
  What the lookup does on a non-empty table. The scan of \<open>searchFromStart\<close> stops
  at the first point whose \<open>SampleNum\<close>, read as \<open>int64\<close>, is at least the target.
  When no point is, the last point of the table is returned. When the first such
  point has index \<open>0\<close> it is returned itself, otherwise the point just before it is
  returned. On a table sorted by \<open>SampleNum\<close> the points below the target are
  exactly those before the stopping index.
\<close>

lemma searchFromStart_preceding_point:
  assumes tbl: "seekTable stream = Some points" and ne: "points \<noteq> []"
  shows "((\<forall>q \<in> set points. sint (SampleNum q) < sint sample) \<longrightarrow>
            searchFromStart stream sample = Returns (last points)) \<and>
         (\<forall>i < length points.
            sint sample \<le> sint (SampleNum (points ! i)) \<and>
            (\<forall>j < i. sint (SampleNum (points ! j)) < sint sample) \<longrightarrow>
              searchFromStart stream sample =
                Returns (if i = 0 then points ! 0 else points ! (i - 1)) \<and>
              (sorted (map (\<lambda>q. sint (SampleNum q)) points) \<longrightarrow>
                 (\<forall>j < length points. sint (SampleNum (points ! j)) < sint sample \<longleftrightarrow> j < i)))"
proof (intro conjI impI allI)
  assume "\<forall>q \<in> set points. sint (SampleNum q) < sint sample"
  then have "takeWhile (below sample) points = points"
    by (simp add: below_def)
  then show "searchFromStart stream sample = Returns (last points)"
    using ne tbl by (simp add: searchFromStart_def searchPoints_def searchLoop_takeWhile)
next
  fix i
  assume i: "i < length points"
    and hit: "sint sample \<le> sint (SampleNum (points ! i)) \<and>
              (\<forall>j < i. sint (SampleNum (points ! j)) < sint sample)"
  have tw: "takeWhile (below sample) points = take i points"
    using i hit by (intro takeWhile_first_hit) (auto simp: below_def)
  have neq: "take i points \<noteq> points" using i by (metis length_take min.absorb4 nat_neq_iff)
  show "searchFromStart stream sample = Returns (if i = 0 then points ! 0 else points ! (i - 1))"
  proof (cases "i = 0")
    case True
    then show ?thesis
      using tbl ne tw neq
      by (simp add: searchFromStart_def searchPoints_def searchLoop_takeWhile hd_conv_nth)
  next
    case False
    then have tne: "take i points \<noteq> []" using i by auto
    have "last (take i points) = take i points ! (length (take i points) - 1)"
      using tne by (rule last_conv_nth)
    also have "\<dots> = points ! (i - 1)"
      using i False by (simp add: min_def)
    finally have "last (take i points) = points ! (i - 1)" .
    with tne show ?thesis
      using tbl ne tw neq False
      by (simp add: searchFromStart_def searchPoints_def searchLoop_takeWhile)
  qed
  {
    fix j
    assume srt: "sorted (map (\<lambda>q. sint (SampleNum q)) points)" and j: "j < length points"
    show "sint (SampleNum (points ! j)) < sint sample \<longleftrightarrow> j < i"
    proof
      assume lt: "sint (SampleNum (points ! j)) < sint sample"
      show "j < i"
      proof (rule ccontr)
        assume "\<not> j < i"
        then have "i \<le> j" by simp
        then have "sint (SampleNum (points ! i)) \<le> sint (SampleNum (points ! j))"
          using srt j i sorted_nth_mono [of "map (\<lambda>q. sint (SampleNum q)) points" i j] by simp
        then show False using lt hit by simp
      qed
    next
      assume "j < i"
      then show "sint (SampleNum (points ! j)) < sint sample" using hit by simp
    qed
  }
qed

lemma searchFromStart_preceding_point_example:
  "searchFromStart stream3 5000 = Returns (table3 ! 1) \<and>
   SampleNum (table3 ! 1) = 4096 \<and>
   searchFromStart stream3 9000 = Returns (last table3)"
proof -
  have tbl: "seekTable stream3 = Some table3" by (simp add: stream3_def)
  have ne: "table3 \<noteq> []" by (simp add: table3_def)
  have two: "(2::nat) < length table3" by (simp add: table3_def)
  have hit: "sint (5000::int64) \<le> sint (SampleNum (table3 ! 2)) \<and>
             (\<forall>j < 2. sint (SampleNum (table3 ! j)) < sint (5000::int64))"
    by (simp add: table3_def less_Suc_eq numeral_2_eq_2)
  have all: "\<forall>q \<in> set table3. sint (SampleNum q) < sint (9000::int64)"
    by (simp add: table3_def)
  from searchFromStart_preceding_point [OF tbl ne, of 5000] two hit
  have "searchFromStart stream3 5000 = Returns (table3 ! 1)" by simp
  moreover from searchFromStart_preceding_point [OF tbl ne, of 9000] all
  have "searchFromStart stream3 9000 = Returns (last table3)" by blast
  moreover have "SampleNum (table3 ! 1) = 4096" by (simp add: table3_def)
  ultimately show ?thesis by simp
qed

text \<open>
  Claim C1 fails on the code. The target 4096 is a point of the table with the
  samples 0, 4096 and 8192, so the greatest point that does not exceed it is that
  point. The scan stops at it, because the test is \<open>>=\<close>, and returns the point
  before it: \<open>Seek\<close> answers sample 0 and moves the source to the first frame. The
  comment of \<open>Seek\<close> promises the closest match from the seek table and a result
  that is never less than \<open>sampleNum\<close>. One sample further, at 4097, the lookup
  gives the point 4096: with \<open>>\<close> in the test it would give it at 4096 too.
\<close>

theorem searchFromStart_exact_hit:
  "searchFromStart stream3 4096 = Returns (table3 ! 0) \<and>
   SampleNum (table3 ! 0) = 0 \<and>
   SampleNum (table3 ! 1) = 4096 \<and>
   searchFromStart stream3 4097 = Returns (table3 ! 1) \<and>
   Seek stream3 4096 SeekStart =
     Returns ((0, None),
       stream3\<lparr>r := (fileSource 42 [Frame 4096 1000, Frame 4096 1000, Frame 4096 1000])
                      \<lparr>seekCalls := 1\<rparr>\<rparr>)"
  by (simp add: Seek_def locate_def searchFromStart_def searchPoints_def stream3_def table3_def
      zeroSeekPoint_def fileSource_def seekStart_def errOf_def)

section \<open>Properties of Seek\<close>

lemma Seek_not_seekable_panics:
  assumes "\<not> seekable (r stream)" "seekTable stream \<noteq> None \<or> seekTableSize stream \<le> 0"
  shows "Seek stream sampleNum whence = Panics PanicTypeAssertion"
  using assms by (auto simp: Seek_def)

lemma Seek_not_seekable_build:
  assumes "\<not> seekable (r stream)" "seekTable stream = None" "0 < seekTableSize stream"
  shows "Seek stream sampleNum whence = Returns ((0, Some ErrNoSeeker), stream)"
  using assms by (simp add: Seek_def makeSeekTable_def)

lemma Seek_no_table_no_synthesis:
  assumes "seekable (r stream)" "seekTable stream = None" "seekTableSize stream \<le> 0"
  shows "Seek stream sampleNum SeekStart = Panics PanicNilPointer"
  using assms by (simp add: Seek_def locate_def searchFromStart_def)

text \<open>
  Claim C2 fails on the code. On the session that \<open>New\<close> and \<open>Parse\<close> build, whose
  source cannot seek and whose seek table synthesis is off, every call of \<open>Seek\<close>
  panics at the unchecked type assertion: it returns no error. \<open>makeSeekTable\<close>
  makes the same assertion with the \<open>ok\<close> result and returns \<open>ErrNoSeeker\<close>
  (lemma \<open>Seek_not_seekable_build\<close>), but it is only called when synthesis is on.
\<close>

theorem Seek_sequential_session_panics:
  "Seek sequentialStream sampleNum whence = Panics PanicTypeAssertion"
  by (simp add: Seek_def sequentialStream_def)

text \<open>
  Claim C3, as the code has it. On an empty seek table the lookups run no iteration
  and give the zero seek point. With a source that can seek and whose \<open>Seek\<close>
  calls do not fail, \<open>Seek\<close> in any of the three modes returns sample 0 and no error,
  and leaves the source at \<open>dataStart\<close>: it neither fails with an index out of range
  nor with an error for unsupported seeking.
\<close>

theorem Seek_empty_table:
  assumes "seekTable stream = Some []" "seekable (r stream)"
    "whence = SeekStart \<or> whence = SeekCurrent \<or> whence = SeekEnd"
    "Info stream \<noteq> None"
    "\<forall>k. seekErr (r stream) k = None"
    "0 \<le> sint (dataStart stream)"
  shows "\<exists>st. Seek stream sampleNum whence = Returns ((0, None), st) \<and>
              pos (r st) = dataStart stream \<and> seekTable st = Some []"
  using assms
  by (auto simp: Seek_def locate_def searchFromStart_def searchFromEnd_def searchFromCurrent_def
      searchPoints_def zeroSeekPoint_def seekStart_def seekCurrent_def errOf_def)

theorem Seek_empty_table_witness:
  "\<exists>st. Seek emptyTableStream (-5) SeekEnd = Returns ((0, None), st) \<and>
        pos (r st) = 42 \<and> seekTable st = Some []"
proof -
  have "seekTable emptyTableStream = Some []" "seekable (r emptyTableStream)"
    "SeekEnd = SeekStart \<or> SeekEnd = SeekCurrent \<or> SeekEnd = SeekEnd"
    "Info emptyTableStream \<noteq> None"
    "\<forall>k. seekErr (r emptyTableStream) k = None"
    "0 \<le> sint (dataStart emptyTableStream)"
    by (simp_all add: emptyTableStream_def fileSource_def)
  from Seek_empty_table [OF this, of "-5"] show ?thesis
    by (simp add: emptyTableStream_def)
qed

text \<open>
  A stream without frames, sought for the first time: the table that is built is
  empty, and \<open>Seek\<close> returns sample 0 without an error.
\<close>

theorem Seek_empty_table_counterexample:
  "Seek emptyStream 0 SeekStart =
     Returns ((0, None), emptyStream\<lparr>seekTable := Some [],
       r := (fileSource 42 [])\<lparr>seekCalls := 4\<rparr>\<rparr>)"
  by (simp add: Seek_def emptyStream_def fileSource_def makeSeekTable_def seekCurrent_def
      seekStart_def reducePoints_def locate_def searchFromStart_def searchPoints_def
      zeroSeekPoint_def errOf_def)

lemma currentLoop_all_before:
  "\<forall>q \<in> set qs. sint (Offset q) < sint offset \<Longrightarrow>
   currentLoop points offset sample p qs = (if qs = [] then p else last qs)"
  by (induction qs arbitrary: p) auto

text \<open>
  Claim C10. The table is not empty, the source can seek and reports its position,
  and every point's \<open>Offset\<close>, read as \<open>int64\<close> as the code compares it, is less than
  the position relative to \<open>dataStart\<close>. Then \<open>searchFromCurrent\<close> gives the last
  point of the table, whatever \<open>sample\<close> is, \<open>Seek\<close> moves the source to that point's
  offset and returns that point's \<open>SampleNum\<close>.
\<close>

theorem Seek_from_current_past_table:
  assumes "seekTable stream = Some points" "points \<noteq> []" "seekable (r stream)"
    "seekErr (r stream) (seekCalls (r stream)) = None"
    "\<forall>q \<in> set points. sint (Offset q) < sint (pos (r stream) - dataStart stream)"
  shows "searchFromCurrent stream sample =
           Returns ((last points, None), stream\<lparr>r := snd (seekCurrent (r stream))\<rparr>) \<and>
         Seek stream sample SeekCurrent =
           Returns ((SampleNum (last points),
                     errOf (fst (seekStart (snd (seekCurrent (r stream)))
                                   (dataStart stream + Offset (last points))))),
                    stream\<lparr>r := snd (seekStart (snd (seekCurrent (r stream)))
                                   (dataStart stream + Offset (last points)))\<rparr>)"
proof -
  have sc: "seekCurrent (r stream) = (Inr (pos (r stream)), snd (seekCurrent (r stream)))"
    using assms(4) by (simp add: seekCurrent_def)
  have cl: "currentLoop points (pos (r stream) - dataStart stream) sample zeroSeekPoint points
              = last points"
    using currentLoop_all_before [OF assms(5)] assms(2) by simp
  have sfc: "searchFromCurrent stream sample =
           Returns ((last points, None), stream\<lparr>r := snd (seekCurrent (r stream))\<rparr>)"
    unfolding searchFromCurrent_def using assms(1) cl
    by (subst sc) simp
  show ?thesis
    using sfc assms(1) assms(3)
    by (simp add: Seek_def locate_def split: prod.splits)
qed

theorem Seek_from_current_past_table_witness:
  "Seek stream3Ahead 7 SeekCurrent =
     Returns ((8192, None),
       stream3\<lparr>r := (fileSource 2042 [Frame 4096 1000, Frame 4096 1000, Frame 4096 1000])
                      \<lparr>seekCalls := 2\<rparr>\<rparr>) \<and>
   Seek stream3Ahead (-7) SeekCurrent =
     Returns ((8192, None),
       stream3\<lparr>r := (fileSource 2042 [Frame 4096 1000, Frame 4096 1000, Frame 4096 1000])
                      \<lparr>seekCalls := 2\<rparr>\<rparr>)"
proof -
  have h: "seekTable stream3Ahead = Some table3" "table3 \<noteq> []" "seekable (r stream3Ahead)"
    "seekErr (r stream3Ahead) (seekCalls (r stream3Ahead)) = None"
    "\<forall>q \<in> set table3. sint (Offset q) < sint (pos (r stream3Ahead) - dataStart stream3Ahead)"
    by (simp_all add: stream3Ahead_def stream3_def table3_def fileSource_def)
  have l: "last table3 = \<lparr>SampleNum = 8192, Offset = 2000, NSamples = 4096\<rparr>"
    by (simp add: table3_def)
  from Seek_from_current_past_table [OF h, of 7] Seek_from_current_past_table [OF h, of "-7"]
  show ?thesis
    unfolding l
    by (simp add: stream3Ahead_def stream3_def fileSource_def seekCurrent_def seekStart_def errOf_def)
qed

section \<open>Properties of the seek table build\<close>

lemma scanFrames_prefix:
  "scanFrames ds evs s n tmp = (Inr out, s') \<Longrightarrow> \<exists>ys. out = tmp @ ys"
proof (induction evs arbitrary: s n tmp)
  case Nil
  then show ?case by simp
next
  case (Cons ev evs)
  show ?case
  proof (cases ev)
    case (Fail e k)
    with Cons.prems show ?thesis by (auto split: if_splits)
  next
    case (Frame bs k)
    with Cons.prems Cons.IH show ?thesis
      by (fastforce split: prod.splits sum.splits)
  qed
qed

lemma goRem_zero: "goRem 0 m = 0"
  by (simp add: goRem_def goDiv_def)

lemma keepMultiples_one: "keepMultiples 1 i ps = ps"
  by (induction ps arbitrary: i) (auto simp: goRem_def goDiv_def sgn_if)

text \<open>
  Fewer raw points than twice the resolution are all kept: the stride is 1 then.
\<close>

lemma reducePoints_keeps_all:
  assumes "0 < tsize" "int (length tmp) < 2 * tsize" "tsize < 2 ^ 63 - 1"
  shows "reducePoints tmp tsize = Returns tmp"
proof -
  have cap: "\<not> sint (word_of_int (tsize + 1) :: int64) < 0"
  proof -
    have "sint (word_of_int (tsize + 1) :: int64) = signed_take_bit (LENGTH(64) - 1) (tsize + 1)"
      by (rule sint_sbintrunc')
    also have "\<dots> = tsize + 1"
      using assms(1,3) by (intro signed_take_bit_int_eq_self) auto
    finally have "sint (word_of_int (tsize + 1) :: int64) = tsize + 1" .
    then show ?thesis using assms(1) by simp
  qed
  have stride: "tsize < int (length tmp) \<Longrightarrow> goDiv (int (length tmp)) tsize = 1"
  proof -
    assume lt: "tsize < int (length tmp)"
    then have "int (length tmp) div tsize = 1"
      using assms(1,2) by (intro int_div_pos_eq [where r = "int (length tmp) - tsize"]) auto
    moreover have "tmp \<noteq> []" using assms(1) lt by auto
    ultimately show ?thesis using assms(1) lt by (simp add: goDiv_def sgn_if)
  qed
  show ?thesis
    using assms(1) cap stride by (auto simp: reducePoints_def keepMultiples_one)
qed

text \<open>
  When the build returns without an error, the source is back at the position it had
  when the build began.
\<close>

lemma makeSeekTable_success_restores:
  assumes "makeSeekTable stream = Returns (None, st')"
  shows "pos (r st') = pos (r stream)"
  using assms
  by (auto simp: makeSeekTable_def errOf_def seekCurrent_def seekStart_def
      split: if_splits prod.splits sum.splits outcome.splits option.splits)


lemma keepMultiples_head:
  "keepMultiples m 0 tmp = p # ps \<Longrightarrow> \<exists>tl0. tmp = p # tl0"
  by (cases tmp) (auto simp: goRem_zero)

lemma scanFrames_first_point:
  assumes "scanFrames ds evs s 0 [] = (Inr (p # tl0), s')" "seekErr s (seekCalls s) = None"
  shows "\<exists>bs k evs'. evs = Frame bs k # evs' \<and>
           p = \<lparr>SampleNum = 0, Offset = pos s + k - ds, NSamples = bs\<rparr>"
proof (cases evs)
  case Nil
  with assms show ?thesis by simp
next
  case (Cons ev evs')
  show ?thesis
  proof (cases ev)
    case (Fail e k)
    with Cons assms show ?thesis by (auto split: if_splits)
  next
    case (Frame bs k)
    have sc: "seekCurrent (s\<lparr>pos := pos s + k\<rparr>) =
                (Inr (pos s + k), s\<lparr>pos := pos s + k, seekCalls := Suc (seekCalls s)\<rparr>)"
      using assms(2) by (simp add: seekCurrent_def)
    from assms(1) have "scanFrames ds evs' (s\<lparr>pos := pos s + k, seekCalls := Suc (seekCalls s)\<rparr>)
        (0 + ucast bs) ([] @ [\<lparr>SampleNum = 0, Offset = pos s + k - ds, NSamples = bs\<rparr>])
        = (Inr (p # tl0), s')"
      unfolding Cons Frame scanFrames.simps sc by simp
    from scanFrames_prefix [OF this]
    have "p = \<lparr>SampleNum = 0, Offset = pos s + k - ds, NSamples = bs\<rparr>" by auto
    with Cons Frame show ?thesis by simp
  qed
qed

text \<open>
  The first point of every table that is built: its \<open>SampleNum\<close> is 0 and its
  \<open>Offset\<close> is the number of bytes of the first frame, the place where that frame
  ends.
\<close>

lemma makeSeekTable_first_point:
  assumes tbl: "seekTable stream = None"
    and ret: "makeSeekTable stream = Returns (err, st')"
    and new: "seekTable st' = Some (p # ps)"
    and ok: "\<forall>k. seekErr (r stream) k = None"
  shows "\<exists>bs k evs. frames (r stream) = Frame bs k # evs \<and>
           p = \<lparr>SampleNum = 0, Offset = k, NSamples = bs\<rparr>"
proof -
  from ret tbl new obtain pos0 s1 ofs s2 tmp s3 where
    a: "seekCurrent (r stream) = (Inr pos0, s1)" and
    b: "seekStart s1 (dataStart stream) = (Inr ofs, s2)" and
    c: "scanFrames (dataStart stream) (frames s2) s2 0 [] = (Inr tmp, s3)" and
    d: "reducePoints tmp (seekTableSize stream) = Returns (p # ps)"
    by (auto simp: makeSeekTable_def split: if_splits prod.splits sum.splits outcome.splits)
  from d obtain m where "keepMultiples m 0 tmp = p # ps"
    by (auto simp: reducePoints_def split: if_splits)
  then obtain tl0 where tmp: "tmp = p # tl0" using keepMultiples_head by blast
  have s1: "s1 = (r stream)\<lparr>seekCalls := Suc (seekCalls (r stream))\<rparr>"
    using a ok by (auto simp: seekCurrent_def split: option.splits)
  have s2: "pos s2 = dataStart stream" "frames s2 = frames (r stream)"
    "seekErr s2 (seekCalls s2) = None"
    using b ok unfolding s1 by (auto simp: seekStart_def split: option.splits if_splits)
  from scanFrames_first_point [OF c [unfolded tmp] s2(3)] s2(1,2)
  show ?thesis by auto
qed

text \<open>
  Claim C7 fails on the code. \<open>makeSeekTable\<close> asks for the position after
  \<open>ParseNext\<close> has read the frame, so the point for sample 0 carries the offset at
  which the first frame ends: 1000 for a first frame of 1000 bytes, not 0. By
  \<open>makeSeekTable_first_point\<close> this is so for every stream with a frame.
\<close>

theorem makeSeekTable_first_offset:
  "makeSeekTable unindexed3 =
     Returns (None, unindexed3\<lparr>seekTable := Some
        [\<lparr>SampleNum = 0, Offset = 1000, NSamples = 4096\<rparr>,
         \<lparr>SampleNum = 4096, Offset = 2000, NSamples = 4096\<rparr>,
         \<lparr>SampleNum = 8192, Offset = 3000, NSamples = 4096\<rparr>],
        r := (fileSource 5000 [Frame 4096 1000, Frame 4096 1000, Frame 4096 1000])
               \<lparr>seekCalls := 6\<rparr>\<rparr>)"
  by (simp add: makeSeekTable_def unindexed3_def fileSource_def seekCurrent_def seekStart_def
      reducePoints_def goRem_def goDiv_def errOf_def)

text \<open>
  Claim C8 fails on the code. When a frame does not decode, \<open>makeSeekTable\<close> returns
  the error at once: the source, read up to the byte 5000 before, is left at the byte
  1059 where the decoder stopped, and no \<open>Seek\<close> call has failed. The position is
  restored on the path without an error only (\<open>makeSeekTable_success_restores\<close>).
\<close>

theorem makeSeekTable_decode_error_position:
  "makeSeekTable corruptStream =
     Returns (Some (ErrOther 1), corruptStream\<lparr>r :=
        (fileSource 1059 [Frame 4096 1000, Fail (ErrOther 1) 17, Frame 4096 1000])
          \<lparr>seekCalls := 3\<rparr>\<rparr>)"
  by (simp add: makeSeekTable_def corruptStream_def fileSource_def seekCurrent_def seekStart_def)

text \<open>
  Claim C9, as the code has it. When the build that \<open>Seek\<close> starts returns an error,
  \<open>Seek\<close> returns that error with the result 0. When the position query, the move to
  \<open>dataStart\<close>, the scan and the reduction have all succeeded, the error is that of
  the last step, which restores the position, and the table has been installed by
  then: it is the whole reduction of all scanned points. In every other case the seek
  table is still absent.
\<close>

theorem Seek_build_failure:
  assumes "seekTable stream = None" "0 < seekTableSize stream"
    "makeSeekTable stream = Returns (Some e, st')"
  shows "Seek stream sampleNum whence = Returns ((0, Some e), st') \<and>
         (\<forall>pos0 s1 ofs s2 tmp s3 points.
             seekable (r stream) \<and>
             seekCurrent (r stream) = (Inr pos0, s1) \<and>
             seekStart s1 (dataStart stream) = (Inr ofs, s2) \<and>
             scanFrames (dataStart stream) (frames s2) s2 0 [] = (Inr tmp, s3) \<and>
             reducePoints tmp (seekTableSize stream) = Returns points \<longrightarrow>
               fst (seekStart s3 pos0) = Inl e \<and>
               st' = stream\<lparr>seekTable := Some points, r := snd (seekStart s3 pos0)\<rparr>) \<and>
         (\<not> (\<exists>pos0 s1 ofs s2 tmp s3 points.
                seekable (r stream) \<and>
                seekCurrent (r stream) = (Inr pos0, s1) \<and>
                seekStart s1 (dataStart stream) = (Inr ofs, s2) \<and>
                scanFrames (dataStart stream) (frames s2) s2 0 [] = (Inr tmp, s3) \<and>
                reducePoints tmp (seekTableSize stream) = Returns points) \<longrightarrow>
            seekTable st' = None)"
proof (intro conjI allI impI)
  show "Seek stream sampleNum whence = Returns ((0, Some e), st')"
    using assms by (simp add: Seek_def)
next
  fix pos0 s1 ofs s2 tmp s3 points
  assume scan: "seekable (r stream) \<and>
             seekCurrent (r stream) = (Inr pos0, s1) \<and>
             seekStart s1 (dataStart stream) = (Inr ofs, s2) \<and>
             scanFrames (dataStart stream) (frames s2) s2 0 [] = (Inr tmp, s3) \<and>
             reducePoints tmp (seekTableSize stream) = Returns points"
  obtain res s4 where rs: "seekStart s3 pos0 = (res, s4)" by (cases "seekStart s3 pos0")
  from assms(3) scan rs
  have "errOf res = Some e" and st: "st' = stream\<lparr>seekTable := Some points, r := s4\<rparr>"
    by (simp_all add: makeSeekTable_def)
  then have "res = Inl e" by (cases res) (simp_all add: errOf_def)
  with rs show "fst (seekStart s3 pos0) = Inl e" by simp
  from st rs show "st' = stream\<lparr>seekTable := Some points, r := snd (seekStart s3 pos0)\<rparr>"
    by simp
next
  assume "\<not> (\<exists>pos0 s1 ofs s2 tmp s3 points.
                seekable (r stream) \<and>
                seekCurrent (r stream) = (Inr pos0, s1) \<and>
                seekStart s1 (dataStart stream) = (Inr ofs, s2) \<and>
                scanFrames (dataStart stream) (frames s2) s2 0 [] = (Inr tmp, s3) \<and>
                reducePoints tmp (seekTableSize stream) = Returns points)"
  with assms(1,3) show "seekTable st' = None"
    by (auto simp: makeSeekTable_def errOf_def
        split: if_splits prod.splits sum.splits outcome.splits)
qed

theorem Seek_build_failure_witness:
  "Seek corruptStream 0 SeekStart =
     Returns ((0, Some (ErrOther 1)), corruptStream\<lparr>r :=
        (fileSource 1059 [Frame 4096 1000, Fail (ErrOther 1) 17, Frame 4096 1000])
          \<lparr>seekCalls := 3\<rparr>\<rparr>) \<and>
   seekTable (corruptStream\<lparr>r :=
        (fileSource 1059 [Frame 4096 1000, Fail (ErrOther 1) 17, Frame 4096 1000])
          \<lparr>seekCalls := 3\<rparr>\<rparr>) = None \<and>
   Seek restoreFails 7 SeekEnd =
     Returns ((0, Some (ErrOther 9)),
       restoreFails\<lparr>seekTable := Some [\<lparr>SampleNum = 0, Offset = 1000, NSamples = 4096\<rparr>],
         r := (r restoreFails)\<lparr>pos := 1042, seekCalls := 4\<rparr>\<rparr>) \<and>
   fst (seekStart ((r restoreFails)\<lparr>pos := 1042, seekCalls := 3\<rparr>) 5000) = Inl (ErrOther 9)"
proof -
  have a: "seekTable corruptStream = None" by (simp add: corruptStream_def)
  have b: "0 < seekTableSize corruptStream" by (simp add: corruptStream_def)
  have c: "makeSeekTable corruptStream =
     Returns (Some (ErrOther 1), corruptStream\<lparr>r :=
        (fileSource 1059 [Frame 4096 1000, Fail (ErrOther 1) 17, Frame 4096 1000])
          \<lparr>seekCalls := 3\<rparr>\<rparr>)"
    by (simp add: makeSeekTable_def corruptStream_def fileSource_def seekCurrent_def seekStart_def)
  have ns: "\<not> (\<exists>pos0 s1 ofs s2 tmp s3 points.
                seekable (r corruptStream) \<and>
                seekCurrent (r corruptStream) = (Inr pos0, s1) \<and>
                seekStart s1 (dataStart corruptStream) = (Inr ofs, s2) \<and>
                scanFrames (dataStart corruptStream) (frames s2) s2 0 [] = (Inr tmp, s3) \<and>
                reducePoints tmp (seekTableSize corruptStream) = Returns points)"
    by (auto simp: corruptStream_def fileSource_def seekCurrent_def seekStart_def)
  have a': "seekTable restoreFails = None" by (simp add: restoreFails_def)
  have b': "0 < seekTableSize restoreFails" by (simp add: restoreFails_def)
  have c': "makeSeekTable restoreFails =
     Returns (Some (ErrOther 9),
       restoreFails\<lparr>seekTable := Some [\<lparr>SampleNum = 0, Offset = 1000, NSamples = 4096\<rparr>],
         r := (r restoreFails)\<lparr>pos := 1042, seekCalls := 4\<rparr>\<rparr>)"
    by (simp add: makeSeekTable_def restoreFails_def seekCurrent_def seekStart_def
        reducePoints_def goRem_def goDiv_def errOf_def)
  have sc: "seekable (r restoreFails) \<and>
      seekCurrent (r restoreFails) = (Inr 5000, (r restoreFails)\<lparr>seekCalls := 1\<rparr>) \<and>
      seekStart ((r restoreFails)\<lparr>seekCalls := 1\<rparr>) (dataStart restoreFails) =
        (Inr 42, (r restoreFails)\<lparr>pos := 42, seekCalls := 2\<rparr>) \<and>
      scanFrames (dataStart restoreFails) (frames ((r restoreFails)\<lparr>pos := 42, seekCalls := 2\<rparr>))
          ((r restoreFails)\<lparr>pos := 42, seekCalls := 2\<rparr>) 0 [] =
        (Inr [\<lparr>SampleNum = 0, Offset = 1000, NSamples = 4096\<rparr>],
         (r restoreFails)\<lparr>pos := 1042, seekCalls := 3\<rparr>) \<and>
      reducePoints [\<lparr>SampleNum = 0, Offset = 1000, NSamples = 4096\<rparr>] (seekTableSize restoreFails)
        = Returns [\<lparr>SampleNum = 0, Offset = 1000, NSamples = 4096\<rparr>]"
    by (simp add: restoreFails_def seekCurrent_def seekStart_def reducePoints_def goRem_def
        goDiv_def)
  from Seek_build_failure [OF a b c, of 0 SeekStart] ns
  have "Seek corruptStream 0 SeekStart =
     Returns ((0, Some (ErrOther 1)), corruptStream\<lparr>r :=
        (fileSource 1059 [Frame 4096 1000, Fail (ErrOther 1) 17, Frame 4096 1000])
          \<lparr>seekCalls := 3\<rparr>\<rparr>) \<and>
     seekTable (corruptStream\<lparr>r :=
        (fileSource 1059 [Frame 4096 1000, Fail (ErrOther 1) 17, Frame 4096 1000])
          \<lparr>seekCalls := 3\<rparr>\<rparr>) = None"
    by blast
  moreover from Seek_build_failure [OF a' b' c', of 7 SeekEnd] sc
  have "Seek restoreFails 7 SeekEnd =
     Returns ((0, Some (ErrOther 9)),
       restoreFails\<lparr>seekTable := Some [\<lparr>SampleNum = 0, Offset = 1000, NSamples = 4096\<rparr>],
         r := (r restoreFails)\<lparr>pos := 1042, seekCalls := 4\<rparr>\<rparr>) \<and>
     fst (seekStart ((r restoreFails)\<lparr>pos := 1042, seekCalls := 3\<rparr>) 5000) = Inl (ErrOther 9)"
    by blast
  ultimately show ?thesis by simp
qed

text \<open>
  The call that restores the position fails: \<open>Seek\<close> returns its error, and the seek
  table has been installed.
\<close>

theorem Seek_restore_failure_counterexample:
  "Seek restoreFails 0 SeekStart =
     Returns ((0, Some (ErrOther 9)),
       restoreFails\<lparr>seekTable := Some [\<lparr>SampleNum = 0, Offset = 1000, NSamples = 4096\<rparr>],
         r := (r restoreFails)\<lparr>pos := 1042, seekCalls := 4\<rparr>\<rparr>)"
  by (simp add: Seek_def makeSeekTable_def restoreFails_def seekCurrent_def seekStart_def
      reducePoints_def goRem_def goDiv_def errOf_def)

lemma scanFrames_all_frames:
  assumes "\<forall>k. seekErr s k = None"
  shows "\<exists>out s'. scanFrames ds (replicate c (Frame bs nb)) s n tmp = (Inr out, s') \<and>
           length out = length tmp + c \<and> pos s' = pos s + of_nat c * nb \<and>
           (\<forall>k. seekErr s' k = None)"
  using assms
proof (induction c arbitrary: s n tmp)
  case 0
  then show ?case by simp
next
  case (Suc c)
  have sc: "seekCurrent (s\<lparr>pos := pos s + nb\<rparr>) =
              (Inr (pos s + nb), s\<lparr>pos := pos s + nb, seekCalls := Suc (seekCalls s)\<rparr>)"
    using Suc.prems by (simp add: seekCurrent_def)
  have "\<forall>k. seekErr (s\<lparr>pos := pos s + nb, seekCalls := Suc (seekCalls s)\<rparr>) k = None"
    using Suc.prems by simp
  from Suc.IH [OF this, of "n + ucast bs"
      "tmp @ [\<lparr>SampleNum = n, Offset = pos s + nb - ds, NSamples = bs\<rparr>]"]
  obtain out s' where
    run: "scanFrames ds (replicate c (Frame bs nb))
            (s\<lparr>pos := pos s + nb, seekCalls := Suc (seekCalls s)\<rparr>) (n + ucast bs)
            (tmp @ [\<lparr>SampleNum = n, Offset = pos s + nb - ds, NSamples = bs\<rparr>]) = (Inr out, s')"
    and len: "length out = length tmp + Suc c"
    and at: "pos s' = pos s + nb + of_nat c * nb"
    and ok: "\<forall>k. seekErr s' k = None"
    by auto
  have "scanFrames ds (replicate (Suc c) (Frame bs nb)) s n tmp = (Inr out, s')"
    by (simp add: sc run)
  moreover have "pos s' = pos s + of_nat (Suc c) * nb"
    using at by (simp add: algebra_simps)
  ultimately show ?case using len ok by blast
qed

text \<open>
  Claim C4 fails on the code. With the resolution 100 of \<open>NewSeek\<close> and a stream of
  102 frames the stride is \<open>102 / 100 = 1\<close>: all 102 points are kept, one more than
  the 101 of the claim and of the capacity that the code gives the table. By
  \<open>reducePoints_keeps_all\<close> nothing is dropped from fewer than 200 raw points.
\<close>

theorem makeSeekTable_102_frames:
  "\<exists>st. makeSeekTable stream102 = Returns (None, st) \<and>
         map_option length (seekTable st) = Some 102"
proof -
  have ok: "\<forall>k. seekErr ((fileSource 42 (replicate 102 (Frame 4096 1000)))
              \<lparr>seekCalls := Suc (Suc 0)\<rparr>) k = None"
    by (simp add: fileSource_def)
  from scanFrames_all_frames [OF ok, of 42 102 4096 1000 0 "[]"]
  obtain out s' where
    sc: "scanFrames 42 (replicate 102 (Frame 4096 1000))
           ((fileSource 42 (replicate 102 (Frame 4096 1000)))\<lparr>seekCalls := Suc (Suc 0)\<rparr>) 0 []
         = (Inr out, s')"
    and len: "length out = 102" and ok': "\<forall>k. seekErr s' k = None"
    by auto
  have red: "reducePoints out 100 = Returns out"
    using len by (intro reducePoints_keeps_all) auto
  show ?thesis
    using sc red len ok'
    by (simp add: makeSeekTable_def stream102_def fileSource_def seekCurrent_def seekStart_def
        errOf_def)
qed

section \<open>Properties of the signature check\<close>

lemma id3Size_nonneg: "0 \<le> id3Size b0 b1 b2 b3"
  by (simp add: id3Size_def)

lemma push_bit_byte_bound: "push_bit n (uint (b :: byte)) < 2 ^ (n + 8)"
proof -
  have "uint b < 2 ^ 8" using uint_bounded [of b] by simp
  then have "push_bit n (uint b) < push_bit n (2 ^ 8)"
    by (simp add: push_bit_eq_mult)
  then show ?thesis by (simp add: push_bit_eq_mult power_add mult.commute)
qed

lemma id3Size_bound: "id3Size b0 b1 b2 b3 < 2 ^ 29"
proof -
  have b0: "push_bit 21 (uint b0) < 2 ^ 29" using push_bit_byte_bound [of 21 b0] by simp
  have "push_bit 14 (uint b1) < 2 ^ 22" using push_bit_byte_bound [of 14 b1] by simp
  then have b1: "push_bit 14 (uint b1) < 2 ^ 29" by (rule less_trans) simp
  have "push_bit 7 (uint b2) < 2 ^ 15" using push_bit_byte_bound [of 7 b2] by simp
  then have b2: "push_bit 7 (uint b2) < 2 ^ 29" by (rule less_trans) simp
  have "uint b3 < 2 ^ 8" using uint_bounded [of b3] by simp
  then have b3: "uint b3 < 2 ^ 29" by (rule less_trans) simp
  have s1: "push_bit 21 (uint b0) OR push_bit 14 (uint b1) < 2 ^ 29"
    by (rule OR_upper [OF _ b0 b1]) simp
  have s2: "(push_bit 21 (uint b0) OR push_bit 14 (uint b1)) OR push_bit 7 (uint b2) < 2 ^ 29"
    by (rule OR_upper [OF _ s1 b2]) simp
  show ?thesis
    unfolding id3Size_def by (rule OR_upper [OF _ s2 b3]) simp
qed

lemma or_low_bits:
  fixes lo hi :: int
  assumes "0 \<le> lo" "lo < 2 ^ n"
  shows "push_bit n hi OR lo = push_bit n hi + lo"
proof -
  have "take_bit n lo = lo" using assms by (simp add: take_bit_int_eq_self)
  then have "push_bit n hi OR lo = concat_bit n lo hi"
    by (simp add: concat_bit_def or.commute)
  also have "\<dots> = take_bit n lo + push_bit n hi" by (rule concat_bit_eq)
  finally show ?thesis using \<open>take_bit n lo = lo\<close> by simp
qed

text \<open>
  Claim C6, as the code has it. The size is the bitwise OR of the four whole bytes
  multiplied by \<open>2 ^ 21\<close>, \<open>2 ^ 14\<close>, \<open>2 ^ 7\<close> and 1: no byte is masked, so
  every bit of every byte, the high one included, shows in the size, and each
  shifted byte is a lower bound of it. The size is never negative and always below
  \<open>2 ^ 29\<close>. When the high bit of each byte is clear, as in a well-formed tag, it is
  the synchsafe value \<open>b0 * 2 ^ 21 + b1 * 2 ^ 14 + b2 * 2 ^ 7 + b3\<close> and below
  \<open>2 ^ 28\<close>.
\<close>

theorem id3Size_unmasked:
  "id3Size b0 b1 b2 b3 =
     ((uint b0 * 2 ^ 21 OR uint b1 * 2 ^ 14) OR uint b2 * 2 ^ 7) OR uint b3 \<and>
   (\<forall>n. bit (id3Size b0 b1 b2 b3) n \<longleftrightarrow>
          bit (uint b3) n \<or> 7 \<le> n \<and> bit (uint b2) (n - 7) \<or>
          14 \<le> n \<and> bit (uint b1) (n - 14) \<or> 21 \<le> n \<and> bit (uint b0) (n - 21)) \<and>
   uint b0 * 2 ^ 21 \<le> id3Size b0 b1 b2 b3 \<and> uint b1 * 2 ^ 14 \<le> id3Size b0 b1 b2 b3 \<and>
   uint b2 * 2 ^ 7 \<le> id3Size b0 b1 b2 b3 \<and> uint b3 \<le> id3Size b0 b1 b2 b3 \<and>
   0 \<le> id3Size b0 b1 b2 b3 \<and> id3Size b0 b1 b2 b3 < 2 ^ 29 \<and>
   (b0 < 128 \<and> b1 < 128 \<and> b2 < 128 \<and> b3 < 128 \<longrightarrow>
      id3Size b0 b1 b2 b3 = synchsafe b0 b1 b2 b3 \<and> id3Size b0 b1 b2 b3 < 2 ^ 28)"
proof -
  have whole: "id3Size b0 b1 b2 b3 =
     ((uint b0 * 2 ^ 21 OR uint b1 * 2 ^ 14) OR uint b2 * 2 ^ 7) OR uint b3"
    by (simp add: id3Size_def push_bit_eq_mult)
  have bits: "bit (id3Size b0 b1 b2 b3) n \<longleftrightarrow>
          bit (uint b3) n \<or> 7 \<le> n \<and> bit (uint b2) (n - 7) \<or>
          14 \<le> n \<and> bit (uint b1) (n - 14) \<or> 21 \<le> n \<and> bit (uint b0) (n - 21)" for n
    by (auto simp: id3Size_def bit_or_iff bit_push_bit_iff)
  have le1: "x \<le> x OR y" if "0 \<le> y" for x y :: int
    using that by (rule or_greater_eq)
  have le2: "y \<le> x OR y" if "0 \<le> x" for x y :: int
    using that or_greater_eq [of x y] by (simp add: or.commute)
  have p0: "0 \<le> uint b0 * 2 ^ 21" and p1: "0 \<le> uint b1 * 2 ^ 14"
    and p2: "0 \<le> uint b2 * 2 ^ 7" and p3: "0 \<le> uint b3"
    by simp_all
  have p01: "0 \<le> uint b0 * 2 ^ 21 OR uint b1 * 2 ^ 14" using p0 p1 by simp
  have p012: "0 \<le> (uint b0 * 2 ^ 21 OR uint b1 * 2 ^ 14) OR uint b2 * 2 ^ 7"
    using p01 p2 by simp
  have l01: "uint b0 * 2 ^ 21 \<le> uint b0 * 2 ^ 21 OR uint b1 * 2 ^ 14" by (rule le1 [OF p1])
  have l11: "uint b1 * 2 ^ 14 \<le> uint b0 * 2 ^ 21 OR uint b1 * 2 ^ 14" by (rule le2 [OF p0])
  have l012: "uint b0 * 2 ^ 21 OR uint b1 * 2 ^ 14
                \<le> (uint b0 * 2 ^ 21 OR uint b1 * 2 ^ 14) OR uint b2 * 2 ^ 7"
    by (rule le1 [OF p2])
  have l2: "uint b2 * 2 ^ 7 \<le> (uint b0 * 2 ^ 21 OR uint b1 * 2 ^ 14) OR uint b2 * 2 ^ 7"
    by (rule le2 [OF p01])
  have l0123: "(uint b0 * 2 ^ 21 OR uint b1 * 2 ^ 14) OR uint b2 * 2 ^ 7 \<le> id3Size b0 b1 b2 b3"
    unfolding whole by (rule le1 [OF p3])
  have l3: "uint b3 \<le> id3Size b0 b1 b2 b3"
    unfolding whole by (rule le2 [OF p012])
  have g0: "uint b0 * 2 ^ 21 \<le> id3Size b0 b1 b2 b3" using l01 l012 l0123 by linarith
  have g1: "uint b1 * 2 ^ 14 \<le> id3Size b0 b1 b2 b3" using l11 l012 l0123 by linarith
  have g2: "uint b2 * 2 ^ 7 \<le> id3Size b0 b1 b2 b3" using l2 l0123 by linarith
  have low: "id3Size b0 b1 b2 b3 = synchsafe b0 b1 b2 b3 \<and> id3Size b0 b1 b2 b3 < 2 ^ 28"
    if lowb: "b0 < 128 \<and> b1 < 128 \<and> b2 < 128 \<and> b3 < 128"
  proof -
    from lowb have u: "uint b0 < 128" "uint b1 < 128" "uint b2 < 128" "uint b3 < 128"
      by (simp_all add: word_less_def)
    have n: "0 \<le> uint b0" "0 \<le> uint b1" "0 \<le> uint b2" "0 \<le> uint b3" by simp_all
    have "id3Size b0 b1 b2 b3 =
            push_bit 7 (push_bit 7 (push_bit 7 (uint b0) OR uint b1) OR uint b2) OR uint b3"
      by (simp add: id3Size_def push_bit_or)
    also have "\<dots> = push_bit 7 (push_bit 7 (push_bit 7 (uint b0) + uint b1) + uint b2) + uint b3"
      using u n by (simp add: or_low_bits)
    also have "\<dots> = uint b0 * 2 ^ 21 + uint b1 * 2 ^ 14 + uint b2 * 2 ^ 7 + uint b3"
      by (simp add: push_bit_eq_mult)
    finally have eq: "id3Size b0 b1 b2 b3 =
        uint b0 * 2 ^ 21 + uint b1 * 2 ^ 14 + uint b2 * 2 ^ 7 + uint b3" .
    have "id3Size b0 b1 b2 b3 = synchsafe b0 b1 b2 b3"
      using eq u n by (simp add: synchsafe_def)
    moreover have "id3Size b0 b1 b2 b3 < 2 ^ 28"
      using eq u n by simp
    ultimately show ?thesis by simp
  qed
  from whole bits g0 g1 g2 l3 id3Size_nonneg [of b0 b1 b2 b3] id3Size_bound [of b0 b1 b2 b3] low
  show ?thesis by blast
qed

theorem id3Size_unmasked_witness:
  "id3Size 0 0 2 1 = 257 \<and> synchsafe 0 0 2 1 = 257 \<and> id3Size 0 0 2 1 < 2 ^ 28 \<and>
   (128 :: int) \<le> id3Size 0 0 0 128 \<and> bit (id3Size 0 0 0 128) 7"
  using id3Size_unmasked [of 0 0 2 1] id3Size_unmasked [of 0 0 0 128]
  by (simp add: synchsafe_def)

text \<open>
  A high bit is not dropped: the size bytes \<open>0, 0, 0, 128\<close> give 128 where the low
  seven bits give 0, and a first byte of 255 gives a size of more than 28 bits.
\<close>

theorem id3Size_high_bits_counterexample:
  "id3Size 0 0 0 128 = 128 \<and> synchsafe 0 0 0 128 = 0 \<and> \<not> id3Size 255 0 0 0 < 2 ^ 28"
  by (simp add: id3Size_def synchsafe_def)

lemmas reader_defs =
  verifySignature_def ReadFull_def rawRead_def id3Signature_def flacSignature_def
  skipID3v2_def Discard_def refill_def fill_def defaultBufSize_def bufRead_def sizeBuf_def
  id3Size_def discardLoop.simps readLoop.simps

text \<open>
  With enough bytes left and no error pending, \<open>Discard\<close> and \<open>io.ReadFull\<close> on
  a \<open>bufio.Reader\<close> take exactly the bytes asked for from what is buffered and
  what the source still holds.
\<close>

lemma discardLoop_enough:
  assumes "pending b = None" "0 < n" "n \<le> length (buffered b) + length (under b)"
  shows "\<exists>b'. discardLoop n b = (None, b') \<and> pending b' = None \<and>
              buffered b' @ under b' = drop n (buffered b @ under b)"
  using assms
proof (induction n b rule: discardLoop.induct)
  case (1 remain b)
  have rp: "pending (refill b) = None"
    using "1.prems" by (auto simp: refill_def fill_def rawRead_def)
  have ru: "buffered (refill b) @ under (refill b) = buffered b @ under b"
    by (auto simp: refill_def fill_def rawRead_def)
  show ?case
  proof (cases "remain \<le> length (buffered (refill b))")
    case True
    have "drop remain (buffered (refill b)) @ under (refill b) = drop remain (buffered b @ under b)"
      using True ru by (metis drop_append diff_is_0_eq drop0)
    with True rp show ?thesis
      using discardLoop.simps [of remain b] by simp
  next
    case False
    let ?b2 = "(refill b)\<lparr>buffered := []\<rparr>"
    let ?r2 = "remain - length (buffered (refill b))"
    have len: "length (buffered b) + length (under b)
                 = length (buffered (refill b)) + length (under (refill b))"
      using ru by (metis length_append)
    have p2: "pending ?b2 = None" using rp by simp
    have pos: "0 < ?r2" using False by simp
    have le: "?r2 \<le> length (buffered ?b2) + length (under ?b2)"
      using "1.prems"(3) len by simp
    have np: "\<not> pending (refill b) \<noteq> None" using rp by simp
    from "1.IH" [OF False np p2 pos le]
    obtain b' where run: "discardLoop ?r2 ?b2 = (None, b')" and pb: "pending b' = None"
      and rest: "buffered b' @ under b' = drop ?r2 (buffered ?b2 @ under ?b2)"
      by blast
    have "drop ?r2 (under (refill b)) = drop remain (buffered (refill b) @ under (refill b))"
      using False by simp
    with rest ru have "buffered b' @ under b' = drop remain (buffered b @ under b)" by simp
    moreover have "discardLoop remain b = (None, b')"
      using False rp run discardLoop.simps [of remain b] by simp
    ultimately show ?thesis using pb by blast
  qed
qed

lemma Discard_enough:
  assumes "pending b = None" "n \<le> length (buffered b) + length (under b)"
  shows "\<exists>b'. Discard n b = (None, b') \<and> pending b' = None \<and>
              buffered b' @ under b' = drop n (buffered b @ under b)"
proof (cases "n = 0")
  case True
  with assms show ?thesis by (simp add: Discard_def)
next
  case False
  with discardLoop_enough [OF assms(1) _ assms(2), of ] show ?thesis
    by (simp add: Discard_def)
qed


lemma bufRead_enough:
  assumes "pending b = None" "0 < n" "buffered b @ under b \<noteq> []"
  shows "\<exists>bs b'. bufRead n b = ((bs, None), b') \<and> bs \<noteq> [] \<and> pending b' = None \<and>
                 bs @ buffered b' @ under b' = buffered b @ under b"
proof (cases "buffered b = []")
  case True
  with assms(3) have u: "under b \<noteq> []" by simp
  have "take n (take defaultBufSize (under b)) \<noteq> []"
    using u assms(2) by (simp add: defaultBufSize_def)
  moreover have "take n (take defaultBufSize (under b)) @
      drop n (take defaultBufSize (under b)) @ drop defaultBufSize (under b) = under b"
    by (metis append.assoc append_take_drop_id)
  ultimately show ?thesis
    using True u assms(1) by (simp add: bufRead_def rawRead_def defaultBufSize_def)
next
  case False
  then show ?thesis
    using assms(1,2) by (simp add: bufRead_def)
qed

lemma readLoop_buffered:
  assumes "pending b = None" "want - length got \<le> length (buffered b @ under b)"
  shows "\<exists>b'. readLoop want got (Buf b) =
                 ((got @ take (want - length got) (buffered b @ under b), None), Buf b') \<and>
              pending b' = None \<and>
              buffered b' @ under b' = drop (want - length got) (buffered b @ under b)"
  using assms
proof (induction "want - length got" arbitrary: got b rule: less_induct)
  case less
  show ?case
  proof (cases "want \<le> length got")
    case True
    then show ?thesis
      using less.prems(1) readLoop.simps [of want got "Buf b"]
      by simp
  next
    case False
    let ?k = "want - length got"
    have k: "0 < ?k" using False by simp
    then have ne: "buffered b @ under b \<noteq> []" using less.prems(2) by auto
    from bufRead_enough [OF less.prems(1) k ne]
    obtain bs b1 where rd: "bufRead ?k b = ((bs, None), b1)" and bne: "bs \<noteq> []"
      and p1: "pending b1 = None" and split: "bs @ buffered b1 @ under b1 = buffered b @ under b"
      by blast
    have lbs: "length bs \<le> ?k \<or> ?k < length bs" by linarith
    have m: "want - length (got @ bs) < want - length got"
      using False bne by (cases bs) auto
    have le: "want - length (got @ bs) \<le> length (buffered b1 @ under b1)"
    proof -
      have "length (buffered b @ under b) = length bs + length (buffered b1 @ under b1)"
        using split by (metis length_append)
      with less.prems(2) show ?thesis by simp
    qed
    from less.hyps [OF m p1 le]
    obtain b' where
      run: "readLoop want (got @ bs) (Buf b1) =
              (((got @ bs) @ take (want - length (got @ bs)) (buffered b1 @ under b1), None), Buf b')"
      and pb: "pending b' = None"
      and rest: "buffered b' @ under b' = drop (want - length (got @ bs)) (buffered b1 @ under b1)"
      by blast
    have bsk: "length bs \<le> ?k"
      using rd by (auto simp: bufRead_def rawRead_def split: if_splits)
    have t: "bs @ take (want - length (got @ bs)) (buffered b1 @ under b1)
               = take ?k (buffered b @ under b)"
    proof -
      have "take ?k (bs @ (buffered b1 @ under b1))
              = bs @ take (?k - length bs) (buffered b1 @ under b1)"
        using bsk by simp
      then show ?thesis using split by (simp add: diff_diff_left)
    qed
    have d: "drop (want - length (got @ bs)) (buffered b1 @ under b1)
               = drop ?k (buffered b @ under b)"
    proof -
      have "drop ?k (bs @ (buffered b1 @ under b1))
              = drop (?k - length bs) (buffered b1 @ under b1)"
        using bsk by simp
      then show ?thesis using split by (simp add: diff_diff_left)
    qed
    have "readLoop want got (Buf b) = readLoop want (got @ bs) (Buf b1)"
      using False rd bne readLoop.simps [of want got "Buf b"]
      by simp
    then show ?thesis using run pb rest t d by simp
  qed
qed

lemma ReadFull_buffered:
  assumes "pending b = None" "n \<le> length (buffered b @ under b)"
  shows "\<exists>b'. ReadFull n (Buf b) = ((take n (buffered b @ under b), None), Buf b') \<and>
              pending b' = None \<and>
              buffered b' @ under b' = drop n (buffered b @ under b)"
proof -
  from readLoop_buffered [OF assms(1), of n "[]"] assms(2)
  obtain b' where "readLoop n [] (Buf b) = ((take n (buffered b @ under b), None), Buf b')"
    "pending b' = None" "buffered b' @ under b' = drop n (buffered b @ under b)"
    by auto
  note r = this
  have len: "n \<le> length (take n (buffered b @ under b))" using assms(2) by simp
  have "ReadFull n (Buf b) = ((take n (buffered b @ under b), None), Buf b')"
    unfolding ReadFull_def r(1) using len by (simp only: prod.case if_True)
  with r(2,3) show ?thesis by blast
qed


lemma skipID3v2_buffered:
  assumes p: "pending b = None" and l: "6 \<le> length (buffered b)"
    and u: "buffered b @ under b = [x, y, b0, b1, b2, b3] @ body @ rest"
    and s: "length body = nat (id3Size b0 b1 b2 b3)"
  shows "\<exists>b'. skipID3v2 (Buf b) = (None, Buf b') \<and> pending b' = None \<and>
              buffered b' @ under b' = rest"
proof -
  have "take 6 (buffered b @ under b) = take 6 (buffered b)" using l by simp
  with u have t6: "take 6 (buffered b) = [x, y, b0, b1, b2, b3]" by simp
  define tl0 where "tl0 = drop 6 (buffered b)"
  have bb: "buffered b = [x, y, b0, b1, b2, b3] @ tl0"
    unfolding tl0_def using t6 by (metis append_take_drop_id)
  have rest0: "tl0 @ under b = body @ rest" using u unfolding bb by simp
  have d2: "Discard 2 (bufioNewReader (Buf b)) = (None, b\<lparr>buffered := b0 # b1 # b2 # b3 # tl0\<rparr>)"
    by (simp add: Discard_def discardLoop.simps [of 2 b] refill_def bb)
  have r4: "bufRead 4 (b\<lparr>buffered := b0 # b1 # b2 # b3 # tl0\<rparr>)
              = (([b0, b1, b2, b3], None), b\<lparr>buffered := tl0\<rparr>)"
    by (simp add: bufRead_def)
  have sb: "sizeBuf [b0, b1, b2, b3] = [b0, b1, b2, b3]" by (simp add: sizeBuf_def)
  have "nat (id3Size b0 b1 b2 b3) \<le>
          length (buffered (b\<lparr>buffered := tl0\<rparr>)) + length (under (b\<lparr>buffered := tl0\<rparr>))"
  proof -
    have "length (tl0 @ under b) = length body + length rest" using rest0 by simp
    then show ?thesis using s by simp
  qed
  from Discard_enough [OF _ this] p
  obtain b' where d3: "Discard (nat (id3Size b0 b1 b2 b3)) (b\<lparr>buffered := tl0\<rparr>) = (None, b')"
    and pb: "pending b' = None"
    and ub: "buffered b' @ under b' = drop (nat (id3Size b0 b1 b2 b3)) (tl0 @ under b)"
    by auto
  have "buffered b' @ under b' = rest" using ub rest0 s by simp
  moreover have "skipID3v2 (Buf b) = (None, Buf b')"
    unfolding skipID3v2_def d2 by (simp add: r4 sb d3)
  ultimately show ?thesis using pb by blast
qed

text \<open>
  In a session of \<open>New\<close> or \<open>Parse\<close> the signature check consumes the ten bytes of
  the tag header and the bytes of the tag body, as many as the size field says, and
  then compares the next four bytes with the signature.
\<close>

lemma verifySignature_buffered:
  assumes sg: "length sig = 4" and s: "length body = nat (id3Size b0 b1 b2 b3)"
  shows "\<exists>b'. verifySignature
                 (Buf \<lparr>buffered = [],
                       under = id3Signature @ [v, x, y, b0, b1, b2, b3] @ body @ sig @ rest,
                       pending = None\<rparr>) =
                 ((if sig = flacSignature then None else Some (ErrInvalidSignature sig)), Buf b') \<and>
              buffered b' @ under b' = rest"
proof -
  define data where "data = id3Signature @ [v, x, y, b0, b1, b2, b3] @ body @ sig @ rest"
  define r1 where "r1 = \<lparr>buffered = drop 4 (take 4096 data), under = drop 4096 data,
                          pending = None\<rparr>"
  have t4: "take 4 data = [0x49, 0x44, 0x33, v]" by (simp add: data_def id3Signature_def)
  have d4: "drop 4 data = [x, y, b0, b1, b2, b3] @ body @ sig @ rest"
    by (simp add: data_def id3Signature_def)
  have ld: "14 \<le> length data" using sg by (simp add: data_def id3Signature_def)
  have ne: "data \<noteq> []" using ld by auto
  have tt: "take 4 (take 4096 data) = take 4 data" by simp
  have rl2: "readLoop 4 (take 4 data) (Buf r1) = ((take 4 data, None), Buf r1)"
    using ld readLoop.simps [of 4 "take 4 data" "Buf r1"] by simp
  have rf: "ReadFull 4 (Buf \<lparr>buffered = [], under = data, pending = None\<rparr>)
              = ((take 4 data, None), Buf r1)"
    using ne ld rl2 readLoop.simps [of 4 "[]" "Buf \<lparr>buffered = [], under = data, pending = None\<rparr>"]
    by (simp add: ReadFull_def bufRead_def rawRead_def defaultBufSize_def tt r1_def)
  have p1: "pending r1 = None" by (simp add: r1_def)
  have l1: "6 \<le> length (buffered r1)" using ld by (simp add: r1_def)
  have u1: "buffered r1 @ under r1 = [x, y, b0, b1, b2, b3] @ body @ (sig @ rest)"
  proof -
    have "drop 4 data = drop 4 (take 4096 data @ drop 4096 data)" by simp
    also have "\<dots> = drop 4 (take 4096 data) @
                      drop (4 - length (take 4096 data)) (drop 4096 data)"
      by (rule drop_append)
    also have "\<dots> = drop 4 (take 4096 data) @ drop 4096 data" using ld by simp
    finally have "drop 4 (take 4096 data) @ drop 4096 data = drop 4 data" by simp
    then show ?thesis using d4 by (simp add: r1_def)
  qed
  from skipID3v2_buffered [OF p1 l1 u1 s]
  obtain r2 where sk: "skipID3v2 (Buf r1) = (None, Buf r2)" and p2: "pending r2 = None"
    and u2: "buffered r2 @ under r2 = sig @ rest"
    by blast
  have "4 \<le> length (buffered r2 @ under r2)" using u2 sg by simp
  from ReadFull_buffered [OF p2 this]
  obtain r3 where rf2: "ReadFull 4 (Buf r2) = ((sig, None), Buf r3)"
    and u3: "buffered r3 @ under r3 = rest"
    using u2 sg by auto
  have "verifySignature (Buf \<lparr>buffered = [], under = data, pending = None\<rparr>) =
          ((if sig = flacSignature then None else Some (ErrInvalidSignature sig)), Buf r3)"
    unfolding verifySignature_def rf t4 by (simp add: id3Signature_def sk rf2)
  with u3 show ?thesis unfolding data_def by blast
qed

text \<open>
  Claim C5 fails on the code. \<open>skipID3v2\<close> reads through a \<open>bufio.Reader\<close> of
  its own. In a session of \<open>NewSeek\<close>, \<open>stream.r\<close> is the source itself, and the
  local reader takes up to 4096 bytes from it at once. On a file of 21 bytes with a
  tag of size 3, all 17 bytes after the first four are taken when \<open>skipID3v2\<close>
  returns, not the 9 that end the tag: the signature that stands at byte 13 is never
  compared, and the second \<open>ReadFull\<close> fails with \<open>io.EOF\<close>. In a session of
  \<open>New\<close> or \<open>Parse\<close>, \<open>stream.r\<close> is a \<open>bufio.Reader\<close> already, which
  \<open>bufio.NewReader\<close> returns as it is: there 13 bytes are consumed before the
  signature, which is found, and \<open>verifySignature_buffered\<close> shows the same for
  every tag size.
\<close>

theorem verifySignature_unbuffered_overread:
  "verifySignature (Raw taggedFile) = (Some EOF, Raw []) \<and>
   skipID3v2 (Raw (drop 4 taggedFile)) = (None, Raw []) \<and>
   drop (10 + 3) taggedFile = [0x66, 0x4C, 0x61, 0x43, 0x80, 0x00, 0x00, 0x22] \<and>
   verifySignature (Buf \<lparr>buffered = [], under = taggedFile, pending = None\<rparr>) =
     (None, Buf \<lparr>buffered = [0x80, 0x00, 0x00, 0x22], under = [], pending = None\<rparr>)"
  by (simp add: taggedFile_def reader_defs)

end
